theory Spec2Isabelle
  imports Main
begin

section \<open>JavaScript strings\<close>

text \<open>
  Strings are lists of 8-bit characters. Node decodes the bytes of a request header as
  Latin-1, one code unit per byte, so a header value is such a list; an upstream body
  is read the same way here, one \<^typ>\<open>char\<close> per code unit. The helpers below give
  the JavaScript built-ins the program calls, with their out-of-range behaviour.
\<close>

definition spaceChars :: "char list" where
  \<comment> \<open>white space and line terminators of \<open>trim\<close> and \<open>\s\<close>, below U+0100\<close>
  "spaceChars = [CHR 0x09, CHR 0x0A, CHR 0x0B, CHR 0x0C, CHR 0x0D, CHR 0x20, CHR 0xA0]"

definition isSpace :: "char \<Rightarrow> bool" where
  "isSpace c = (c \<in> set spaceChars)"

definition trim :: "string \<Rightarrow> string" where
  "trim s = rev (dropWhile isSpace (rev (dropWhile isSpace s)))"

definition lowerChar :: "char \<Rightarrow> char" where
  \<comment> \<open>A-Z, and the Latin-1 capitals U+00C0-U+00DE without the sign U+00D7\<close>
  "lowerChar c = (let n = (of_char c :: nat) in
     if (65 \<le> n \<and> n \<le> 90) \<or> (192 \<le> n \<and> n \<le> 222 \<and> n \<noteq> 215)
     then char_of (n + 32) else c)"

definition toLowerCase :: "string \<Rightarrow> string" where
  "toLowerCase s = map lowerChar s"

fun startsWith :: "string \<Rightarrow> string \<Rightarrow> bool" where
  \<comment> \<open>\<open>startsWith p s\<close>: \<open>p\<close> is a prefix of \<open>s\<close>\<close>
  "startsWith [] s = True"
| "startsWith (p # ps) [] = False"
| "startsWith (p # ps) (c # cs) = (p = c \<and> startsWith ps cs)"

fun contains :: "string \<Rightarrow> string \<Rightarrow> bool" where
  \<comment> \<open>\<open>contains s p\<close>: \<open>p\<close> occurs in \<open>s\<close>; an unanchored literal pattern\<close>
  "contains [] p = (p = [])"
| "contains (c # cs) p = (startsWith p (c # cs) \<or> contains cs p)"

fun split :: "char \<Rightarrow> string \<Rightarrow> string list" where
  \<comment> \<open>\<open>s.split(sep)\<close> for a one-character separator: never the empty array\<close>
  "split sep [] = [[]]"
| "split sep (c # cs) =
     (if c = sep then [] # split sep cs
      else (case split sep cs of
              [] \<Rightarrow> [[c]]
            | x # xs \<Rightarrow> (c # x) # xs))"

section \<open>Client identity\<close>

text \<open>
  The fields of the request that the program reads. \<open>None\<close> is \<open>undefined\<close>: the
  header was not sent, the platform resolved no address, there is no socket address.
\<close>

record request =
  x_forwarded_for :: "string option"
  req_ip :: "string option"
  remoteAddress :: "string option"
  user_agent :: "string option"

definition stripMapped :: "string \<Rightarrow> string" where
  \<comment> \<open>\<open>replace(/^::ffff:/, "")\<close>\<close>
  "stripMapped s = (if startsWith ''::ffff:'' s then drop 7 s else s)"

definition normalizeIp :: "string \<Rightarrow> string" where
  "normalizeIp ip = (if ip = [] then [] else trim (stripMapped ip))"

definition truthy :: "string option \<Rightarrow> bool" where
  \<comment> \<open>a string-valued property in a condition: present and not empty\<close>
  "truthy v = (case v of None \<Rightarrow> False | Some s \<Rightarrow> s \<noteq> [])"

definition orEmpty :: "string option \<Rightarrow> string" where
  \<comment> \<open>\<open>v || ""\<close>\<close>
  "orEmpty v = (case v of None \<Rightarrow> [] | Some s \<Rightarrow> s)"

definition fallbackIp :: "request \<Rightarrow> string" where
  \<comment> \<open>lines 41-43: the platform-resolved address, else the socket's\<close>
  "fallbackIp req =
     (if truthy (req_ip req) then normalizeIp (orEmpty (req_ip req))
      else normalizeIp (orEmpty (remoteAddress req)))"

definition element0 :: "string list \<Rightarrow> string" where
  \<comment> \<open>\<open>parts[0]\<close>; \<open>split\<close> never returns the empty array\<close>
  "element0 parts = (case parts of [] \<Rightarrow> [] | x # _ \<Rightarrow> x)"

definition detectClientIp :: "request \<Rightarrow> string" where
  "detectClientIp req =
     (if truthy (x_forwarded_for req) then
        (let first = trim (element0 (split CHR '','' (orEmpty (x_forwarded_for req))))
         in if first \<noteq> [] then normalizeIp first else fallbackIp req)
      else fallbackIp req)"

text \<open>
  The platform-resolved address. Both files set \<open>trust proxy\<close> to \<open>true\<close>
  (\<open>index.js\<close> line 10), so express computes \<open>req.ip\<close> from the same forwarding
  header: it cuts the header at the commas, removes the space characters (U+0020, no
  other white space) around each piece, drops the empty pieces, and with every hop
  trusted takes the leftmost piece; without one it takes the socket's address. A
  request as the program receives it has \<open>req.ip\<close> equal to that.
\<close>

definition stripSpaces :: "string \<Rightarrow> string" where
  "stripSpaces s =
     rev (dropWhile (\<lambda>ch. ch = CHR 0x20) (rev (dropWhile (\<lambda>ch. ch = CHR 0x20) s)))"

definition forwardedFor :: "string \<Rightarrow> string list" where
  \<comment> \<open>the addresses of the header, in the order of the header\<close>
  "forwardedFor h = filter (\<lambda>a. a \<noteq> []) (map stripSpaces (split CHR '','' h))"

definition expressIp :: "string option \<Rightarrow> string option \<Rightarrow> string option" where
  "expressIp xff remote = (case forwardedFor (orEmpty xff) of [] \<Rightarrow> remote | a # _ \<Rightarrow> Some a)"

definition trustProxy :: "request \<Rightarrow> bool" where
  "trustProxy req = (req_ip req = expressIp (x_forwarded_for req) (remoteAddress req))"

text \<open>
  What the specification's testable property asks for: the first element of the chain
  that is not empty once trimmed, then normalised.
\<close>

definition firstNonEmpty :: "string list \<Rightarrow> string option" where
  "firstNonEmpty parts = (case filter (\<lambda>p. trim p \<noteq> []) parts of [] \<Rightarrow> None | p # _ \<Rightarrow> Some (trim p))"

section \<open>Reputation cache and lookup\<close>

text \<open>
  An object stored in \<open>ipCache\<close>. The lookup tests \<open>"isProxy" in cached\<close>, so that
  field is optional here; \<open>last\<close> is a millisecond timestamp and \<open>count\<close> starts at 0
  and is only ever incremented or set to 1. JavaScript numbers are taken as exact
  integers, far below the range where doubles lose precision.
\<close>

record entry =
  isProxy :: "bool option"
  last_ms :: int
  count :: nat

type_synonym cache = "string \<rightharpoonup> entry"

text \<open>
  The reputation service is outside the program. What one \<open>fetch\<close> followed by
  \<open>resp.json()\<close> can produce: the fetch rejects, the body is not JSON, or a JSON value
  arrives. Indexing \<open>null\<close> throws; any other value is indexed by a key and yields an
  object with the two fields the program reads, or nothing the program can read
  (\<open>undefined\<close>, \<open>null\<close>, a primitive). A field is \<open>None\<close> when it is missing or is
  not a string.
\<close>

record info =
  proxy :: "string option"
  type :: "string option"

datatype data = Null | Keyed "string \<rightharpoonup> info"

datatype service_reply = FetchRejects | JsonRejects | Parsed data

datatype js_error = FetchError | SyntaxError | TypeError

text \<open>The environment of one request: the service's answer and the two clock reads.\<close>

record env =
  reply :: service_reply
  lookupTime :: int
  now :: int

fun tryLookup :: "service_reply \<Rightarrow> string \<Rightarrow> js_error + bool" where
  \<comment> \<open>the body of the \<open>try\<close>, lines 74-78\<close>
  "tryLookup FetchRejects ip = Inl FetchError"
| "tryLookup JsonRejects ip = Inl SyntaxError"
| "tryLookup (Parsed Null) ip = Inl TypeError"
| "tryLookup (Parsed (Keyed d)) ip =
     Inr (case d ip of
            None \<Rightarrow> False
          | Some i \<Rightarrow> proxy i = Some ''yes'' \<or> type i = Some ''VPN'' \<or> type i = Some ''Hosting'')"

record lookup =
  answer :: bool
  store :: cache
  fetched :: "string list"

definition isProxyOrVPN :: "env \<Rightarrow> cache \<Rightarrow> string \<Rightarrow> lookup" where
  \<comment> \<open>\<open>fetched\<close> lists the addresses the service was asked about\<close>
  "isProxyOrVPN e c ip =
     (if ip = [] then \<lparr>answer = False, store = c, fetched = []\<rparr>
      else
        (let cached = c ip in
         case (case cached of None \<Rightarrow> None | Some x \<Rightarrow> isProxy x) of
           Some b \<Rightarrow> \<lparr>answer = b, store = c, fetched = []\<rparr>
         | None \<Rightarrow>
             (let result = (case tryLookup (reply e) ip of Inl _ \<Rightarrow> False | Inr r \<Rightarrow> r)
              in \<lparr>answer = result,
                  store = c(ip \<mapsto> \<lparr>isProxy = Some result, last_ms = lookupTime e,
                                   count = (case cached of None \<Rightarrow> 0 | Some x \<Rightarrow> count x)\<rparr>),
                  fetched = [ip]\<rparr>)))"

text \<open>
  The lookup is asynchronous. Up to line 70 it runs at once; from there it waits for
  the service, and other requests are handled meanwhile. When the answer is there it
  writes the entry from \<open>cached\<close> as it read it at line 67, before the wait, into the
  cache as it is by then. A lookup waits only when there was no entry or an entry
  without \<open>isProxy\<close>; no guard counts on such an entry before a lookup has put a new
  object in its place, so what \<open>cached\<close> refers to is the same at line 87 as at
  line 67.
\<close>

datatype started = Done bool | Await "entry option"

definition lookupStart :: "cache \<Rightarrow> string \<Rightarrow> started" where
  \<comment> \<open>lines 66-70: an answer at once, or the entry read before the wait\<close>
  "lookupStart c ip =
     (if ip = [] then Done False
      else (case (case c ip of None \<Rightarrow> None | Some x \<Rightarrow> isProxy x) of
              Some b \<Rightarrow> Done b
            | None \<Rightarrow> Await (c ip)))"

definition lookupFinish :: "env \<Rightarrow> entry option \<Rightarrow> cache \<Rightarrow> string \<Rightarrow> lookup" where
  \<comment> \<open>lines 72-89, on the cache at the time the service has answered\<close>
  "lookupFinish e cached c ip =
     (let result = (case tryLookup (reply e) ip of Inl _ \<Rightarrow> False | Inr r \<Rightarrow> r)
      in \<lparr>answer = result,
          store = c(ip \<mapsto> \<lparr>isProxy = Some result, last_ms = lookupTime e,
                           count = (case cached of None \<Rightarrow> 0 | Some x \<Rightarrow> count x)\<rparr>),
          fetched = [ip]\<rparr>)"


section \<open>Signatures\<close>

definition matchI :: "string \<Rightarrow> string \<Rightarrow> bool" where
  \<comment> \<open>\<open>/p/i.test(s)\<close> for a literal \<open>p\<close> written in lower case\<close>
  "matchI p s = contains (toLowerCase s) p"

definition isWordChar :: "char \<Rightarrow> bool" where
  \<comment> \<open>\<open>\w\<close>\<close>
  "isWordChar c = (let n = (of_char c :: nat) in
     (48 \<le> n \<and> n \<le> 57) \<or> (65 \<le> n \<and> n \<le> 90) \<or> n = 95 \<or> (97 \<le> n \<and> n \<le> 122))"

fun wordIn :: "string \<Rightarrow> bool \<Rightarrow> string \<Rightarrow> bool" where
  \<comment> \<open>\<open>/\bw\b/\<close> for a word \<open>w\<close> of word characters; the flag: the character before is one\<close>
  "wordIn w prev [] = False"
| "wordIn w prev (c # cs) =
     ((\<not> prev \<and> startsWith w (c # cs) \<and>
        (case drop (length w) (c # cs) of [] \<Rightarrow> True | d # _ \<Rightarrow> \<not> isWordChar d))
      \<or> wordIn w (isWordChar c) cs)"

definition botPatterns :: "(string \<Rightarrow> bool) list" where
  "botPatterns =
     [matchI ''bot'', matchI ''spider'', matchI ''crawl'', matchI ''headless'',
      (\<lambda>s. matchI ''renderbot'' s \<or> list_ex (\<lambda>w. matchI (''render'' @ [w] @ ''bot'') s) spaceChars),
      matchI ''monitor'', matchI ''curl'', matchI ''wget'', matchI ''pingdom'',
      matchI ''uptime'', matchI ''facebookexternalhit'', matchI ''python-requests'',
      matchI ''node-fetch'', matchI ''httpclient'', matchI ''postmanruntime'',
      matchI ''cf-network'', matchI ''datadog'', matchI ''newrelic'']"

definition strongEmu :: "(string \<Rightarrow> bool) list" where
  "strongEmu =
     [matchI ''sdk_gphone'', matchI ''google_sdk'', matchI ''android sdk built for'',
      matchI ''genymotion'', matchI ''bluestacks'',
      (\<lambda>s. matchI ''noxplayer'' s \<or> matchI ''nox'' s),
      matchI ''ldplayer'', matchI ''memu'', matchI ''mumu'',
      (\<lambda>s. matchI ''virtualbox'' s \<or> matchI ''vbox'' s),
      (\<lambda>s. wordIn ''emulator'' False (toLowerCase s)),
      (\<lambda>s. matchI ''archon'' s \<or> matchI ''arc hon'' s)]"

definition weakX86 :: "string \<Rightarrow> bool" where
  "weakX86 ua = list_ex (\<lambda>p. matchI p ua) [''x86_64'', ''i686'', ''amd64'']"

definition knownRealBrands :: "string \<Rightarrow> bool" where
  "knownRealBrands ua = list_ex (\<lambda>p. matchI p ua)
     [''pixel'', ''samsung'', ''sm-'', ''huawei'', ''honor'', ''xiaomi'', ''redmi'',
      ''oneplus'', ''oppo'', ''vivo'', ''sony'', ''xperia'', ''motorola'', ''moto'',
      ''nokia'', ''nothing'', ''realme'', ''lenovo'', ''tecno'', ''infinix'']"

definition botCheck :: "string \<Rightarrow> bool" where
  \<comment> \<open>line 123, on the lower-cased user-agent\<close>
  "botCheck ua = (ua = [] \<or> list_ex (\<lambda>p. p ua) botPatterns)"

definition matchesStrong :: "string \<Rightarrow> bool" where
  "matchesStrong ua = list_ex (\<lambda>p. p ua) strongEmu"

definition matchesWeakCombo :: "string \<Rightarrow> bool" where
  "matchesWeakCombo ua = (contains ua ''android'' \<and> weakX86 ua \<and> \<not> knownRealBrands ua)"

section \<open>The guard\<close>

record logline =
  tag :: string
  log_ip :: string
  log_ua :: string

text \<open>
  What the guard leaves behind: the two fields it sets on the request, the lines it
  hands to \<open>logFlag\<close> in order (the time stamp of a line is left out), the cache, the
  addresses looked up at the service, and \<open>cached.count\<close> as line 175 reads it.
\<close>

record outcome =
  suspicious :: bool
  suspiciousReason :: string
  flagLog :: "logline list"
  ipCache :: cache
  lookedUp :: "string list"
  rateCount :: nat

record marks =
  m_suspicious :: bool
  m_reason :: string
  m_log :: "logline list"

definition mark :: "string \<Rightarrow> string \<Rightarrow> string \<Rightarrow> string \<Rightarrow> marks \<Rightarrow> marks" where
  \<comment> \<open>the three statements in the body of each check\<close>
  "mark reason t ip uaRaw m =
     \<lparr>m_suspicious = True, m_reason = reason,
      m_log = m_log m @ [\<lparr>tag = t, log_ip = ip, log_ua = uaRaw\<rparr>]\<rparr>"

definition rateLimit :: "int \<Rightarrow> entry \<Rightarrow> entry" where
  \<comment> \<open>lines 170-172\<close>
  "rateLimit t cached =
     (if t - last_ms cached < 2000 then cached\<lparr>count := count cached + 1, last_ms := t\<rparr>
      else cached\<lparr>count := 1, last_ms := t\<rparr>)"

definition rateEntry :: "int \<Rightarrow> cache \<Rightarrow> string \<Rightarrow> entry" where
  \<comment> \<open>lines 169-172: the entry of the address, or a fresh one, counted\<close>
  "rateEntry t c ip =
     rateLimit t (case c ip of
                    None \<Rightarrow> \<lparr>isProxy = Some False, last_ms = 0, count = 0\<rparr>
                  | Some x \<Rightarrow> x)"

definition guard :: "env \<Rightarrow> cache \<Rightarrow> request \<Rightarrow> outcome" where
  "guard e c req =
     (let ip = detectClientIp req;
          uaRaw = orEmpty (user_agent req);
          ua = toLowerCase uaRaw;
          m0 = \<lparr>m_suspicious = False, m_reason = [], m_log = []\<rparr>;
          m1 = (if botCheck ua then mark ''bot'' ''BOT->WHITE'' ip uaRaw m0 else m0);
          lk = isProxyOrVPN e c ip;
          m2 = (if answer lk \<and> \<not> m_suspicious m1
                then mark ''vpn_proxy'' ''VPN/PROXY->WHITE'' ip uaRaw m1 else m1);
          m3 = (if (matchesStrong ua \<or> matchesWeakCombo ua) \<and> \<not> m_suspicious m2
                then mark ''emulator'' ''EMULATOR->WHITE'' ip uaRaw m2 else m2);
          cached = rateEntry (now e) (store lk) ip;
          m4 = (if count cached > 5 \<and> \<not> m_suspicious m3
                then mark ''rate_limit'' ''RATE_LIMIT->WHITE'' ip uaRaw m3 else m3)
      in \<lparr>suspicious = m_suspicious m4, suspiciousReason = m_reason m4, flagLog = m_log m4,
          ipCache = (store lk)(ip \<mapsto> cached), lookedUp = fetched lk,
          rateCount = count cached\<rparr>)"

definition guardAfter :: "env \<Rightarrow> request \<Rightarrow> lookup \<Rightarrow> outcome" where
  \<comment> \<open>the guard from the point where the lookup has returned \<open>lk\<close>: lines 131-181\<close>
  "guardAfter e req lk =
     (let ip = detectClientIp req;
          uaRaw = orEmpty (user_agent req);
          ua = toLowerCase uaRaw;
          m0 = \<lparr>m_suspicious = False, m_reason = [], m_log = []\<rparr>;
          m1 = (if botCheck ua then mark ''bot'' ''BOT->WHITE'' ip uaRaw m0 else m0);
          m2 = (if answer lk \<and> \<not> m_suspicious m1
                then mark ''vpn_proxy'' ''VPN/PROXY->WHITE'' ip uaRaw m1 else m1);
          m3 = (if (matchesStrong ua \<or> matchesWeakCombo ua) \<and> \<not> m_suspicious m2
                then mark ''emulator'' ''EMULATOR->WHITE'' ip uaRaw m2 else m2);
          cached = rateEntry (now e) (store lk) ip;
          m4 = (if count cached > 5 \<and> \<not> m_suspicious m3
                then mark ''rate_limit'' ''RATE_LIMIT->WHITE'' ip uaRaw m3 else m3)
      in \<lparr>suspicious = m_suspicious m4, suspiciousReason = m_reason m4, flagLog = m_log m4,
          ipCache = (store lk)(ip \<mapsto> cached), lookedUp = fetched lk,
          rateCount = count cached\<rparr>)"

text \<open>
  Requests in flight. \<open>guard\<close> above is one request with nothing in between. The
  server handles a request up to the wait of its lookup, then other requests, and goes
  on with the first when the service has answered. A guard that waits is kept with the
  entry its lookup read. \<open>Arrive\<close>: a request comes in and runs until it waits, or to
  its end when the lookup answers at once (its clock read is \<open>now\<close>). \<open>Settle k\<close>:
  the service answers the \<open>k\<close>-th waiting guard, which writes the entry and runs to
  its end. Between a lookup that has returned and the rest of its guard only the
  completion of a promise passes, in which no other request is handled, so each of the
  two events is one step. Outcomes are listed in the order in which the guards end.
\<close>

datatype event = Arrive request env | Settle nat env

type_synonym waiting = "(request \<times> entry option) list"

fun step :: "cache \<times> waiting \<Rightarrow> event \<Rightarrow> (cache \<times> waiting) \<times> outcome option" where
  "step (c, ps) (Arrive req e) =
     (case lookupStart c (detectClientIp req) of
        Done b \<Rightarrow>
          (let out = guardAfter e req \<lparr>answer = b, store = c, fetched = []\<rparr>
           in ((ipCache out, ps), Some out))
      | Await cached \<Rightarrow> ((c, ps @ [(req, cached)]), None))"
| "step (c, ps) (Settle k e) =
     (if k < length ps then
        (let req = fst (ps ! k);
             out = guardAfter e req (lookupFinish e (snd (ps ! k)) c (detectClientIp req))
         in ((ipCache out, take k ps @ drop (Suc k) ps), Some out))
      else ((c, ps), None))"

fun run :: "cache \<times> waiting \<Rightarrow> event list \<Rightarrow> outcome list" where
  "run s [] = []"
| "run s (ev # evs) =
     (case step s ev of
        (s', None) \<Rightarrow> run s' evs
      | (s', Some out) \<Rightarrow> out # run s' evs)"

definition oneByOne :: "(env \<times> request) list \<Rightarrow> event list" where
  \<comment> \<open>no overlap: every request runs to its end before the next one arrives\<close>
  "oneByOne xs = concat (map (\<lambda>x. [Arrive (snd x) (fst x), Settle 0 (fst x)]) xs)"



definition seen :: "cache \<Rightarrow> string \<Rightarrow> int \<Rightarrow> nat \<Rightarrow> bool" where
  \<comment> \<open>the cache as a guard leaves it for its address: time, count, lookup settled\<close>
  "seen c ip t n =
     (case c ip of
        None \<Rightarrow> False
      | Some y \<Rightarrow> last_ms y = t \<and> count y = n \<and> (ip = [] \<or> isProxy y \<noteq> None))"

text \<open>
  The specification's reading of the verdict and of the log: the checks as an ordered
  list of condition and reason; the verdict takes the first whose condition holds, the
  log has a line for each whose condition holds.
\<close>

fun firstMatch :: "(bool \<times> string) list \<Rightarrow> string" where
  "firstMatch [] = []"
| "firstMatch (x # xs) = (if fst x then snd x else firstMatch xs)"

definition checks :: "env \<Rightarrow> cache \<Rightarrow> request \<Rightarrow> (bool \<times> string) list" where
  "checks e c req =
     (let ip = detectClientIp req;
          ua = toLowerCase (orEmpty (user_agent req));
          lk = isProxyOrVPN e c ip in
      [(botCheck ua, ''bot''),
       (answer lk, ''vpn_proxy''),
       (matchesStrong ua \<or> matchesWeakCombo ua, ''emulator''),
       (count (rateEntry (now e) (store lk) ip) > 5, ''rate_limit'')])"

definition tagOf :: "string \<Rightarrow> string" where
  "tagOf reason =
     (if reason = ''bot'' then ''BOT->WHITE''
      else if reason = ''vpn_proxy'' then ''VPN/PROXY->WHITE''
      else if reason = ''emulator'' then ''EMULATOR->WHITE''
      else ''RATE_LIMIT->WHITE'')"

definition matchedTags :: "(bool \<times> string) list \<Rightarrow> string list" where
  \<comment> \<open>the tags of a log with one line for each check whose condition holds\<close>
  "matchedTags cs = map (\<lambda>x. tagOf (snd x)) (filter fst cs)"

section \<open>Outbound user-agent\<close>

definition whiteUaMode :: "string option \<Rightarrow> string" where
  \<comment> \<open>line 192, from the environment variable\<close>
  "whiteUaMode v = toLowerCase (if truthy v then orEmpty v else ''suffix'')"

definition uaToSend :: "bool \<Rightarrow> string \<Rightarrow> string \<Rightarrow> string" where
  "uaToSend susp mode origUA =
     (if susp \<and> mode = ''empty'' then []
      else if susp then (if origUA \<noteq> [] then origUA @ '' bot'' else ''bot'')
      else origUA)"

section \<open>Reading the upstream response\<close>

fun scan :: "string \<Rightarrow> string \<Rightarrow> nat \<Rightarrow> int" where
  \<comment> \<open>the first position, counted from \<open>k\<close>, where \<open>p\<close> starts in the rest of the text\<close>
  "scan p [] k = (if p = [] then int k else - 1)"
| "scan p (c # cs) k = (if startsWith p (c # cs) then int k else scan p cs (Suc k))"

definition clampIndex :: "string \<Rightarrow> int \<Rightarrow> nat" where
  \<comment> \<open>a position argument is clamped to \<open>0..length\<close>\<close>
  "clampIndex s i = nat (min (max i 0) (int (length s)))"

definition indexOf :: "string \<Rightarrow> string \<Rightarrow> int \<Rightarrow> int" where
  \<comment> \<open>\<open>s.indexOf(p, from)\<close>\<close>
  "indexOf s p from = (let k = clampIndex s from in scan p (drop k s) k)"

definition charAt :: "string \<Rightarrow> int \<Rightarrow> char option" where
  \<comment> \<open>\<open>s[i]\<close>, \<open>undefined\<close> out of range\<close>
  "charAt s i = (if 0 \<le> i \<and> i < int (length s) then Some (s ! nat i) else None)"

definition needle :: "char option \<Rightarrow> string" where
  \<comment> \<open>\<open>indexOf\<close> turns its argument into a string, \<open>undefined\<close> too\<close>
  "needle q = (case q of None \<Rightarrow> ''undefined'' | Some ch \<Rightarrow> [ch])"

definition substring :: "string \<Rightarrow> int \<Rightarrow> int \<Rightarrow> string" where
  \<comment> \<open>\<open>s.substring(a, b)\<close>: both clamped, then swapped when \<open>a > b\<close>\<close>
  "substring s a b =
     (let x = clampIndex s a; y = clampIndex s b
      in take (max x y - min x y) (drop (min x y) s))"

definition isAbsolute :: "string \<Rightarrow> bool" where
  \<comment> \<open>\<open>/^https?:\/\//i\<close>\<close>
  "isAbsolute u = (startsWith ''http://'' (toLowerCase u) \<or> startsWith ''https://'' (toLowerCase u))"

definition LANDER_NAME :: string where
  "LANDER_NAME = ''skytalons''"

definition extractImage :: "string option \<Rightarrow> string \<Rightarrow> string" where
  \<comment> \<open>lines 261-283; \<open>origin\<close> is \<open>new URL(KEITARO_URL).origin\<close>, \<open>None\<close> when that throws\<close>
  "extractImage origin html =
     (let imgIndex = indexOf html ''<img'' 0 in
      if imgIndex \<noteq> - 1 then
        (let srcIndex = indexOf html ''src='' imgIndex in
         if srcIndex \<noteq> - 1 then
           (let startQuote = charAt html (srcIndex + 4);
                endQuote = indexOf html (needle startQuote) (srcIndex + 5);
                imageUrl = trim (substring html (srcIndex + 5) endQuote)
            in if imageUrl \<noteq> [] \<and> \<not> isAbsolute imageUrl then
                 (case origin of
                    Some b \<Rightarrow> b @ ''/lander/'' @ LANDER_NAME @ ''/'' @
                              dropWhile (\<lambda>ch. ch = CHR ''/'') imageUrl
                  | None \<Rightarrow> imageUrl)
               else imageUrl)
         else [])
      else [])"

text \<open>
  The upstream request either fails or resolves to a final URL and a body; reading the
  body may fail too. The handler of \<open>index.js\<close> answers every failure with the empty
  payload.
\<close>

datatype upstream = FetchFails | Response string "string option"

record payload =
  image_url :: string
  site_url :: string

fun respond :: "string \<Rightarrow> string option \<Rightarrow> upstream \<Rightarrow> payload" where
  \<comment> \<open>lines 245-296, for the configured \<open>KEITARO_URL\<close> and its origin\<close>
  "respond keitaro origin FetchFails = \<lparr>image_url = [], site_url = []\<rparr>"
| "respond keitaro origin (Response url body) =
     (if url \<noteq> [] \<and> url \<noteq> keitaro then \<lparr>image_url = [], site_url = url\<rparr>
      else (case body of
              None \<Rightarrow> \<lparr>image_url = [], site_url = []\<rparr>
            | Some html \<Rightarrow> \<lparr>image_url = extractImage origin html, site_url = []\<rparr>))"

section \<open>Client identity: the forwarding chain\<close>

lemma split_not_Nil: "split sep s \<noteq> []"
  by (induction s) (auto split: list.splits)

lemma space_isSpace: "isSpace (CHR 0x20)"
  by (simp add: isSpace_def spaceChars_def)

lemma stripSpaces_Nil_trim:
  assumes "stripSpaces e = []"
  shows "trim e = []"
proof -
  let ?P = "\<lambda>ch. ch = CHR 0x20"
  let ?d = "dropWhile ?P e"
  have "?d = []"
  proof (rule ccontr)
    assume ne: "?d \<noteq> []"
    then have "\<not> ?P (hd ?d)" by (rule hd_dropWhile)
    moreover from ne have "hd ?d \<in> set (rev ?d)" by simp
    ultimately have "\<exists>y \<in> set (rev ?d). \<not> ?P y" by blast
    then have "dropWhile ?P (rev ?d) \<noteq> []" by (simp only: dropWhile_eq_Nil_conv) blast
    with assms show False by (simp only: stripSpaces_def rev_is_Nil_conv)
  qed
  then have all: "\<forall>ch \<in> set e. ?P ch" by (simp only: dropWhile_eq_Nil_conv)
  have "\<forall>ch \<in> set e. isSpace ch"
  proof
    fix ch assume "ch \<in> set e"
    with all have "ch = CHR 0x20" by blast
    then show "isSpace ch" by (simp only: space_isSpace)
  qed
  then have "dropWhile isSpace e = []" by (induction e) simp_all
  then have "trim e = rev (dropWhile isSpace (rev []))" by (simp only: trim_def)
  then show ?thesis by simp
qed

lemma fallbackIp_trustProxy:
  assumes "x_forwarded_for req = Some x" and "trustProxy req"
  shows "fallbackIp req =
           (case forwardedFor x of
              [] \<Rightarrow> normalizeIp (orEmpty (remoteAddress req))
            | a # _ \<Rightarrow> normalizeIp a)"
proof (cases "forwardedFor x")
  case Nil
  with assms have "req_ip req = remoteAddress req"
    by (simp add: trustProxy_def expressIp_def orEmpty_def)
  with Nil show ?thesis by (simp add: fallbackIp_def)
next
  case (Cons a as)
  then have "a \<in> set (forwardedFor x)" by simp
  then have "a \<noteq> []" by (simp add: forwardedFor_def)
  moreover from Cons assms have "req_ip req = Some a"
    by (simp add: trustProxy_def expressIp_def orEmpty_def)
  ultimately show ?thesis using Cons by (simp add: fallbackIp_def truthy_def orEmpty_def)
qed

lemma detectClientIp_header:
  assumes "x_forwarded_for req = Some x" and "split CHR '','' x = p # ps"
  shows "detectClientIp req = (if trim p \<noteq> [] then normalizeIp (trim p) else fallbackIp req)"
proof (cases "x = []")
  case True
  with assms have "p = []" by simp
  then have "trim p = []" by (simp add: trim_def)
  moreover from True assms have "detectClientIp req = fallbackIp req"
    by (simp add: detectClientIp_def truthy_def)
  ultimately show ?thesis by simp
next
  case False
  with assms have t: "truthy (x_forwarded_for req)" by (simp add: truthy_def)
  from assms have first: "trim (element0 (split CHR '','' (orEmpty (x_forwarded_for req)))) = trim p"
    by (simp add: element0_def orEmpty_def)
  from t first show ?thesis by (simp add: detectClientIp_def Let_def)
qed

lemma forwardedFor_first:
  assumes "split CHR '','' x = pre @ q # rest"
    and "\<forall>e \<in> set pre. stripSpaces e = []" and "stripSpaces q \<noteq> []"
  shows "forwardedFor x = stripSpaces q # filter (\<lambda>a. a \<noteq> []) (map stripSpaces rest)"
  using assms by (simp add: forwardedFor_def)

lemma firstNonEmpty_first:
  assumes "\<forall>e \<in> set pre. trim e = []" and "trim q \<noteq> []"
  shows "firstNonEmpty (pre @ q # rest) = Some (trim q)"
  using assms by (simp add: firstNonEmpty_def)

text \<open>
  C7 (as amended). A request with a forwarding header, as express hands it to the program
  with \<open>trust proxy\<close> on. When the first element of the comma-separated chain is not
  empty after trimming, the resolved address is that element, trimmed and normalised, and
  it is the first non-empty element of the chain. When the first element is empty or
  white space, the program reads no later element itself: it falls back to the
  platform-resolved address, normalised, which is the leftmost element that is not empty
  once the space characters around it are removed, or the socket's address when there is
  none. So the resolved address is the first element that is non-empty after trimming
  whenever every element before it is empty or made of space characters only and only
  space characters surround it.
\<close>

theorem detectClientIp_chain:
  assumes hdr: "x_forwarded_for req = Some x" and tp: "trustProxy req"
    and sp: "split CHR '','' x = p # ps"
  shows "(trim p \<noteq> [] \<longrightarrow>
            detectClientIp req = normalizeIp (trim p) \<and> firstNonEmpty (p # ps) = Some (trim p))
       \<and> (trim p = [] \<longrightarrow>
            detectClientIp req = fallbackIp req
          \<and> detectClientIp req =
              (case forwardedFor x of
                 [] \<Rightarrow> normalizeIp (orEmpty (remoteAddress req))
               | a # _ \<Rightarrow> normalizeIp a))
       \<and> (p # ps = pre @ q # rest \<and> (\<forall>e \<in> set pre. stripSpaces e = [])
            \<and> trim q \<noteq> [] \<and> stripSpaces q = trim q \<longrightarrow>
            detectClientIp req = normalizeIp (trim q)
          \<and> firstNonEmpty (p # ps) = Some (trim q))"
proof (intro conjI impI)
  note d = detectClientIp_header [OF hdr sp]
  {
    assume "trim p \<noteq> []"
    with d show "detectClientIp req = normalizeIp (trim p)" by simp
    from \<open>trim p \<noteq> []\<close> show "firstNonEmpty (p # ps) = Some (trim p)"
      by (simp add: firstNonEmpty_def)
  }
  {
    assume "trim p = []"
    with d show fb: "detectClientIp req = fallbackIp req" by simp
    with fallbackIp_trustProxy [OF hdr tp]
    show "detectClientIp req =
              (case forwardedFor x of
                 [] \<Rightarrow> normalizeIp (orEmpty (remoteAddress req))
               | a # _ \<Rightarrow> normalizeIp a)" by simp
  }
  {
    assume a: "p # ps = pre @ q # rest \<and> (\<forall>e \<in> set pre. stripSpaces e = [])
            \<and> trim q \<noteq> [] \<and> stripSpaces q = trim q"
    then have blank: "\<forall>e \<in> set pre. trim e = []" by (simp add: stripSpaces_Nil_trim)
    with a show "firstNonEmpty (p # ps) = Some (trim q)"
      by (simp add: firstNonEmpty_first)
    show "detectClientIp req = normalizeIp (trim q)"
    proof (cases pre)
      case Nil
      with a have "p = q" by simp
      with a d show ?thesis by simp
    next
      case (Cons p' pre')
      with a have "p = p'" by simp
      with Cons blank have "trim p = []" by simp
      with d have "detectClientIp req = fallbackIp req" by simp
      moreover from a sp have "forwardedFor x = trim q # filter (\<lambda>a. a \<noteq> []) (map stripSpaces rest)"
        using forwardedFor_first [of x pre q rest] by simp
      ultimately show ?thesis using fallbackIp_trustProxy [OF hdr tp] by simp
    qed
  }
qed

theorem detectClientIp_chain_witness:
  "trustProxy \<lparr>x_forwarded_for = Some '' ::ffff:10.0.0.7 , 1.2.3.4'', req_ip = Some ''::ffff:10.0.0.7'',
      remoteAddress = Some ''10.9.9.9'', user_agent = None\<rparr>
   \<and> detectClientIp \<lparr>x_forwarded_for = Some '' ::ffff:10.0.0.7 , 1.2.3.4'', req_ip = Some ''::ffff:10.0.0.7'',
      remoteAddress = Some ''10.9.9.9'', user_agent = None\<rparr> = ''10.0.0.7''
   \<and> trustProxy \<lparr>x_forwarded_for = Some '' , 1.2.3.4'', req_ip = Some ''1.2.3.4'',
      remoteAddress = Some ''10.9.9.9'', user_agent = None\<rparr>
   \<and> detectClientIp \<lparr>x_forwarded_for = Some '' , 1.2.3.4'', req_ip = Some ''1.2.3.4'',
      remoteAddress = Some ''10.9.9.9'', user_agent = None\<rparr> = ''1.2.3.4''"
proof -
  let ?r1 = "\<lparr>x_forwarded_for = Some '' ::ffff:10.0.0.7 , 1.2.3.4'', req_ip = Some ''::ffff:10.0.0.7'',
      remoteAddress = Some ''10.9.9.9'', user_agent = None\<rparr>"
  let ?r2 = "\<lparr>x_forwarded_for = Some '' , 1.2.3.4'', req_ip = Some ''1.2.3.4'',
      remoteAddress = Some ''10.9.9.9'', user_agent = None\<rparr>"
  have tp1: "trustProxy ?r1" by code_simp
  have tp2: "trustProxy ?r2" by code_simp
  have s1: "split CHR '','' '' ::ffff:10.0.0.7 , 1.2.3.4'' = '' ::ffff:10.0.0.7 '' # ['' 1.2.3.4'']"
    by simp
  have s2: "split CHR '','' '' , 1.2.3.4'' = '' '' # ['' 1.2.3.4'']"
    by simp
  have t1: "trim '' ::ffff:10.0.0.7 '' = ''::ffff:10.0.0.7''" by code_simp
  have n1: "normalizeIp ''::ffff:10.0.0.7'' = ''10.0.0.7''" by code_simp
  have h1: "x_forwarded_for ?r1 = Some '' ::ffff:10.0.0.7 , 1.2.3.4''" by simp
  have h2: "x_forwarded_for ?r2 = Some '' , 1.2.3.4''" by simp
  have q2: "stripSpaces '' '' = []" "trim '' 1.2.3.4'' = ''1.2.3.4''"
    "stripSpaces '' 1.2.3.4'' = ''1.2.3.4''" "normalizeIp ''1.2.3.4'' = ''1.2.3.4''"
    by code_simp+
  have a: "detectClientIp ?r1 = ''10.0.0.7''"
    using detectClientIp_chain [OF h1 tp1 s1] t1 n1 by simp
  have b: "detectClientIp ?r2 = ''1.2.3.4''"
    using detectClientIp_chain [OF h2 tp2 s2, of "['' '']" "'' 1.2.3.4''" "[]"] q2 by simp
  from tp1 tp2 a b show ?thesis by (simp only: simp_thms)
qed

text \<open>
  The chain of the three elements empty, tab, \<open>1.2.3.4\<close>: the first element that is
  not empty after trimming is \<open>1.2.3.4\<close>. The first element is empty, express takes
  the tab for the leftmost address, and the program trims it to the empty address.
\<close>

theorem tab_element_counterexample:
  "trustProxy \<lparr>x_forwarded_for = Some ('','' @ [CHR 0x09] @ '',1.2.3.4''), req_ip = Some [CHR 0x09],
      remoteAddress = Some ''10.9.9.9'', user_agent = None\<rparr>
   \<and> firstNonEmpty (split CHR '','' ('','' @ [CHR 0x09] @ '',1.2.3.4'')) = Some ''1.2.3.4''
   \<and> detectClientIp \<lparr>x_forwarded_for = Some ('','' @ [CHR 0x09] @ '',1.2.3.4''), req_ip = Some [CHR 0x09],
      remoteAddress = Some ''10.9.9.9'', user_agent = None\<rparr> = []
   \<and> detectClientIp \<lparr>x_forwarded_for = Some ('','' @ [CHR 0x09] @ '',1.2.3.4''), req_ip = Some [CHR 0x09],
      remoteAddress = Some ''10.9.9.9'', user_agent = None\<rparr> \<noteq> normalizeIp ''1.2.3.4''"
  by code_simp

section \<open>Reputation lookup\<close>


lemma lookup_empty_ip: "isProxyOrVPN e c [] = \<lparr>answer = False, store = c, fetched = []\<rparr>"
  by (simp add: isProxyOrVPN_def)





lemma lookup_store_own:
  "ip \<noteq> [] \<Longrightarrow> \<exists>y. store (isProxyOrVPN e c ip) ip = Some y \<and> isProxy y \<noteq> None"
  by (auto simp: isProxyOrVPN_def Let_def split: option.splits)

lemma rateEntry_isProxy:
  "isProxy (rateEntry t c ip) = (case c ip of None \<Rightarrow> Some False | Some x \<Rightarrow> isProxy x)"
  by (simp add: rateEntry_def rateLimit_def split: option.splits)

lemma rateEntry_last: "last_ms (rateEntry t c ip) = t"
  by (simp add: rateEntry_def rateLimit_def)

lemma rateEntry_count_pos: "Suc 0 \<le> count (rateEntry t c ip)"
  by (simp add: rateEntry_def rateLimit_def)


lemma guard_cache_own:
  "ipCache (guard e c req) (detectClientIp req) =
     Some (rateEntry (now e) (store (isProxyOrVPN e c (detectClientIp req))) (detectClientIp req))"
  by (simp add: guard_def Let_def)

lemma guard_rateCount:
  "rateCount (guard e c req) =
     count (rateEntry (now e) (store (isProxyOrVPN e c (detectClientIp req))) (detectClientIp req))"
  by (simp add: guard_def Let_def)



lemma lookup_split:
  "isProxyOrVPN e c ip =
     (case lookupStart c ip of
        Done b \<Rightarrow> \<lparr>answer = b, store = c, fetched = []\<rparr>
      | Await cached \<Rightarrow> lookupFinish e cached c ip)"
  by (simp add: isProxyOrVPN_def lookupStart_def lookupFinish_def Let_def split: option.splits)

lemma guard_guardAfter: "guard e c req = guardAfter e req (isProxyOrVPN e c (detectClientIp req))"
  by (simp add: guard_def guardAfter_def Let_def)

lemma guardAfter_cache_own:
  "ipCache (guardAfter e req lk) (detectClientIp req) =
     Some (rateEntry (now e) (store lk) (detectClientIp req))"
  by (simp add: guardAfter_def Let_def)






lemma step_Arrive_Done:
  assumes "lookupStart c (detectClientIp req) = Done b"
  shows "step (c, ps) (Arrive req e) = ((ipCache (guard e c req), ps), Some (guard e c req))"
  using assms by (simp add: guard_guardAfter lookup_split Let_def)

lemma step_Arrive_Await:
  assumes "lookupStart c (detectClientIp req) = Await cached"
  shows "step (c, ps) (Arrive req e) = ((c, ps @ [(req, cached)]), None)"
  using assms by simp

lemma step_Settle_first:
  assumes "lookupStart c (detectClientIp req) = Await cached"
  shows "step (c, [(req, cached)]) (Settle 0 e) = ((ipCache (guard e c req), []), Some (guard e c req))"
  using assms by (simp add: guard_guardAfter lookup_split Let_def)








text \<open>
  C10. A lookup for an address whose entry has an \<open>isProxy\<close> field returns the cache
  it was given: no entry added or removed, every field of every entry as before, and no
  fetch. Whenever a lookup does change the cache, the service was asked about that
  address, and the change is the one write of line 83: \<open>isProxy\<close> the result,
  \<open>last\<close> the time of the write, \<open>count\<close> kept, or 0 for a new entry.
\<close>

theorem lookup_frame:
  assumes "c ip = Some x" and "isProxy x \<noteq> None"
  shows "store (isProxyOrVPN e c ip) = c \<and> fetched (isProxyOrVPN e c ip) = []
       \<and> (store (isProxyOrVPN e c' ip') \<noteq> c' \<longrightarrow>
            fetched (isProxyOrVPN e c' ip') = [ip']
          \<and> store (isProxyOrVPN e c' ip') =
              c'(ip' \<mapsto> \<lparr>isProxy = Some (answer (isProxyOrVPN e c' ip')), last_ms = lookupTime e,
                          count = (case c' ip' of None \<Rightarrow> 0 | Some y \<Rightarrow> count y)\<rparr>))"
proof -
  have "store (isProxyOrVPN e c ip) = c \<and> fetched (isProxyOrVPN e c ip) = []"
    using assms by (auto simp: isProxyOrVPN_def)
  moreover have "store (isProxyOrVPN e c' ip') \<noteq> c' \<longrightarrow>
            fetched (isProxyOrVPN e c' ip') = [ip']
          \<and> store (isProxyOrVPN e c' ip') =
              c'(ip' \<mapsto> \<lparr>isProxy = Some (answer (isProxyOrVPN e c' ip')), last_ms = lookupTime e,
                          count = (case c' ip' of None \<Rightarrow> 0 | Some y \<Rightarrow> count y)\<rparr>)"
    by (simp add: isProxyOrVPN_def Let_def split: option.splits)
  ultimately show ?thesis by blast
qed

theorem lookup_frame_witness:
  "store (isProxyOrVPN \<lparr>reply = FetchRejects, lookupTime = 5000, now = 5001\<rparr>
      [''1.2.3.4'' \<mapsto> \<lparr>isProxy = Some True, last_ms = 10, count = 2\<rparr>] ''1.2.3.4'')
     = [''1.2.3.4'' \<mapsto> \<lparr>isProxy = Some True, last_ms = 10, count = 2\<rparr>]
   \<and> fetched (isProxyOrVPN \<lparr>reply = FetchRejects, lookupTime = 5000, now = 5001\<rparr>
      Map.empty ''5.6.7.8'') = [''5.6.7.8'']
   \<and> store (isProxyOrVPN \<lparr>reply = FetchRejects, lookupTime = 5000, now = 5001\<rparr>
      Map.empty ''5.6.7.8'') = [''5.6.7.8'' \<mapsto> \<lparr>isProxy = Some False, last_ms = 5000, count = 0\<rparr>]"
proof -
  let ?e = "\<lparr>reply = FetchRejects, lookupTime = 5000, now = 5001\<rparr>"
  let ?x = "\<lparr>isProxy = Some True, last_ms = 10, count = 2\<rparr>"
  have x: "[''1.2.3.4'' \<mapsto> ?x] ''1.2.3.4'' = Some ?x" by simp
  have p: "isProxy ?x \<noteq> None" by simp
  have a: "answer (isProxyOrVPN ?e Map.empty ''5.6.7.8'') = False"
    by (simp add: isProxyOrVPN_def)
  have w: "store (isProxyOrVPN ?e Map.empty ''5.6.7.8'') \<noteq> Map.empty"
    by (simp add: isProxyOrVPN_def)
  from lookup_frame [where c = "[''1.2.3.4'' \<mapsto> ?x]" and ip = "''1.2.3.4''" and e = ?e
      and c' = Map.empty and ip' = "''5.6.7.8''", OF x p] a w
  show ?thesis by simp
qed

lemma tryLookup_fails:
  "(\<exists>err. tryLookup r ip = Inl err) = (r = FetchRejects \<or> r = JsonRejects \<or> r = Parsed Null)"
proof (cases r)
  case (Parsed d)
  then show ?thesis by (cases d) simp_all
qed simp_all

text \<open>
  C6. The lookup answers \<open>False\<close> for the empty address. When the service is asked
  and the fetch rejects, the body is not JSON, or the parsed value cannot be indexed,
  the exception is caught: the lookup returns \<open>False\<close>, and the guard of that request
  does not give the reason \<open>vpn_proxy\<close>. Every throwing statement of the lookup is
  inside its \<open>try\<close>, so the lookup and the guard always return a value.
\<close>

theorem lookup_fails_open:
  "answer (isProxyOrVPN e c []) = False
   \<and> (tryLookup (reply e) ip = Inl err \<and> fetched (isProxyOrVPN e c ip) \<noteq> [] \<longrightarrow>
        answer (isProxyOrVPN e c ip) = False
      \<and> (detectClientIp req = ip \<longrightarrow> suspiciousReason (guard e c req) \<noteq> ''vpn_proxy''))"
proof -
  have a: "answer (isProxyOrVPN e c ip) = False"
    if "tryLookup (reply e) ip = Inl err" and "fetched (isProxyOrVPN e c ip) \<noteq> []"
    using that by (simp add: isProxyOrVPN_def Let_def split: if_splits option.splits)
  have b: "suspiciousReason (guard e c req) \<noteq> ''vpn_proxy''"
    if "answer (isProxyOrVPN e c (detectClientIp req)) = False"
    using that by (simp add: guard_def Let_def mark_def)
  from a b show ?thesis by (auto simp: lookup_empty_ip)
qed

theorem lookup_fails_open_witness:
  "answer (isProxyOrVPN \<lparr>reply = JsonRejects, lookupTime = 5000, now = 5001\<rparr> Map.empty []) = False
   \<and> isProxyOrVPN \<lparr>reply = JsonRejects, lookupTime = 5000, now = 5001\<rparr> Map.empty ''1.2.3.4''
       = \<lparr>answer = False,
          store = [''1.2.3.4'' \<mapsto> \<lparr>isProxy = Some False, last_ms = 5000, count = 0\<rparr>],
          fetched = [''1.2.3.4'']\<rparr>
   \<and> suspiciousReason (guard \<lparr>reply = JsonRejects, lookupTime = 5000, now = 5001\<rparr> Map.empty
        \<lparr>x_forwarded_for = Some ''1.2.3.4'', req_ip = None, remoteAddress = None,
           user_agent = Some ''Mozilla/5.0''\<rparr>) \<noteq> ''vpn_proxy''"
proof -
  let ?e = "\<lparr>reply = JsonRejects, lookupTime = 5000, now = 5001\<rparr>"
  let ?r = "\<lparr>x_forwarded_for = Some ''1.2.3.4'', req_ip = None, remoteAddress = None,
           user_agent = Some ''Mozilla/5.0''\<rparr>"
  have t: "tryLookup (reply ?e) ''1.2.3.4'' = Inl SyntaxError" by simp
  have f: "isProxyOrVPN ?e Map.empty ''1.2.3.4''
       = \<lparr>answer = False,
          store = [''1.2.3.4'' \<mapsto> \<lparr>isProxy = Some False, last_ms = 5000, count = 0\<rparr>],
          fetched = [''1.2.3.4'']\<rparr>"
    by (simp add: isProxyOrVPN_def)
  have d: "detectClientIp ?r = ''1.2.3.4''" by code_simp
  from lookup_fails_open [of ?e Map.empty "''1.2.3.4''" SyntaxError ?r] t f d
  show ?thesis by simp
qed

section \<open>The verdict and the flag log\<close>

text \<open>
  The specification's example of a crawler, from the socket address of a request that
  has no forwarding header.
\<close>

lemma guard_bot_example:
  "suspiciousReason (guard \<lparr>reply = FetchRejects, lookupTime = 5000, now = 5001\<rparr> Map.empty
      \<lparr>x_forwarded_for = None, req_ip = None, remoteAddress = Some ''::ffff:10.1.2.3'',
         user_agent = Some ''Googlebot/2.1''\<rparr>) = ''bot''
   \<and> detectClientIp \<lparr>x_forwarded_for = None, req_ip = None, remoteAddress = Some ''::ffff:10.1.2.3'',
         user_agent = Some ''Googlebot/2.1''\<rparr> = ''10.1.2.3''"
  by code_simp

text \<open>
  C1. The reason the guard leaves on the request is the reason of the first check, in
  the order bot, vpn_proxy, emulator, rate_limit, whose condition holds, and the empty
  reason when none holds; the request is suspicious exactly when some condition holds.
  A later check never replaces the reason of an earlier one.
\<close>

theorem guard_first_match:
  "suspiciousReason (guard e c req) = firstMatch (checks e c req)
   \<and> suspicious (guard e c req) = (firstMatch (checks e c req) \<noteq> [])"
  by (simp add: guard_def checks_def Let_def mark_def)

theorem guard_first_match_witness:
  "suspiciousReason (guard \<lparr>reply = Parsed (Keyed [''1.2.3.4'' \<mapsto> \<lparr>proxy = Some ''yes'', type = None\<rparr>]),
        lookupTime = 5000, now = 5001\<rparr> Map.empty
      \<lparr>x_forwarded_for = Some ''1.2.3.4'', req_ip = None, remoteAddress = None,
         user_agent = Some ''Mozilla/5.0 (Android; x86_64)''\<rparr>) = ''vpn_proxy''"
proof -
  let ?e = "\<lparr>reply = Parsed (Keyed [''1.2.3.4'' \<mapsto> \<lparr>proxy = Some ''yes'', type = None\<rparr>]),
        lookupTime = 5000, now = 5001\<rparr>"
  let ?r = "\<lparr>x_forwarded_for = Some ''1.2.3.4'', req_ip = None, remoteAddress = None,
         user_agent = Some ''Mozilla/5.0 (Android; x86_64)''\<rparr>"
  have "checks ?e Map.empty ?r =
      [(False, ''bot''), (True, ''vpn_proxy''), (True, ''emulator''), (False, ''rate_limit'')]"
    by code_simp
  with guard_first_match [of ?e Map.empty ?r] show ?thesis by simp
qed

text \<open>
  C2 (as amended). The guard writes at most one line to the flag log: none when no
  check's condition holds, otherwise the line of the first check whose condition holds,
  the one that sets the verdict, with that check's tag, the resolved address and the
  raw user-agent. A check whose condition holds after an earlier one has matched writes
  nothing, since its call of \<open>logFlag\<close> is inside the test \<open>!req.suspicious\<close>.
\<close>

theorem guard_logs_first_match_only:
  "flagLog (guard e c req) =
     (if firstMatch (checks e c req) = [] then []
      else [\<lparr>tag = tagOf (firstMatch (checks e c req)), log_ip = detectClientIp req,
             log_ua = orEmpty (user_agent req)\<rparr>])"
  by (simp add: guard_def checks_def Let_def mark_def tagOf_def)

theorem guard_logs_first_match_only_witness:
  "flagLog (guard \<lparr>reply = Parsed (Keyed [''1.2.3.4'' \<mapsto> \<lparr>proxy = Some ''yes'', type = None\<rparr>]),
        lookupTime = 5000, now = 5001\<rparr> Map.empty
      \<lparr>x_forwarded_for = Some ''1.2.3.4'', req_ip = None, remoteAddress = None,
         user_agent = Some ''Mozilla/5.0 (Android; x86_64)''\<rparr>)
   = [\<lparr>tag = ''VPN/PROXY->WHITE'', log_ip = ''1.2.3.4'', log_ua = ''Mozilla/5.0 (Android; x86_64)''\<rparr>]"
proof -
  let ?e = "\<lparr>reply = Parsed (Keyed [''1.2.3.4'' \<mapsto> \<lparr>proxy = Some ''yes'', type = None\<rparr>]),
        lookupTime = 5000, now = 5001\<rparr>"
  let ?r = "\<lparr>x_forwarded_for = Some ''1.2.3.4'', req_ip = None, remoteAddress = None,
         user_agent = Some ''Mozilla/5.0 (Android; x86_64)''\<rparr>"
  have c: "checks ?e Map.empty ?r =
      [(False, ''bot''), (True, ''vpn_proxy''), (True, ''emulator''), (False, ''rate_limit'')]"
    by code_simp
  have d: "detectClientIp ?r = ''1.2.3.4''"
    by code_simp
  from guard_logs_first_match_only [of ?e Map.empty ?r] c d show ?thesis
    by (simp add: tagOf_def orEmpty_def)
qed

text \<open>
  A \<open>curl\<close> request from an address the service reports as a proxy matches the bot
  check and the proxy check: a line for each matching check would give two tags, and the
  log has the bot line only.
\<close>

theorem later_match_not_logged_counterexample:
  "matchedTags (checks \<lparr>reply = Parsed (Keyed [''1.2.3.4'' \<mapsto> \<lparr>proxy = Some ''yes'', type = None\<rparr>]),
        lookupTime = 5000, now = 5001\<rparr> Map.empty
      \<lparr>x_forwarded_for = Some ''1.2.3.4'', req_ip = None, remoteAddress = None,
         user_agent = Some ''curl/8.0''\<rparr>) = [''BOT->WHITE'', ''VPN/PROXY->WHITE'']
   \<and> map tag (flagLog (guard \<lparr>reply = Parsed (Keyed [''1.2.3.4'' \<mapsto> \<lparr>proxy = Some ''yes'', type = None\<rparr>]),
        lookupTime = 5000, now = 5001\<rparr> Map.empty
      \<lparr>x_forwarded_for = Some ''1.2.3.4'', req_ip = None, remoteAddress = None,
         user_agent = Some ''curl/8.0''\<rparr>)) = [''BOT->WHITE'']"
  by code_simp

section \<open>Rate limit\<close>

text \<open>
  C4 (as amended). For an address whose entry a previous request left, the count is
  incremented when the time of the request minus the entry's \<open>last\<close> is strictly
  below 2000 ms, and set to 1 when that gap is 2000 ms or more; \<open>last\<close> becomes the
  time of the request either way.
\<close>

theorem rate_window:
  assumes "c (detectClientIp req) = Some x" and "isProxy x \<noteq> None"
  shows "rateCount (guard e c req) = (if now e - last_ms x < 2000 then count x + 1 else 1)
       \<and> ipCache (guard e c req) (detectClientIp req) =
           Some (x\<lparr>count := (if now e - last_ms x < 2000 then count x + 1 else 1), last_ms := now e\<rparr>)"
proof -
  from assms have "store (isProxyOrVPN e c (detectClientIp req)) = c"
    by (auto simp: isProxyOrVPN_def)
  with assms(1) show ?thesis
    by (simp add: guard_def Let_def rateEntry_def rateLimit_def)
qed

theorem rate_window_witness:
  "rateCount (guard \<lparr>reply = FetchRejects, lookupTime = 11999, now = 11999\<rparr>
      [''1.2.3.4'' \<mapsto> \<lparr>isProxy = Some False, last_ms = 10000, count = 3\<rparr>]
      \<lparr>x_forwarded_for = Some ''1.2.3.4'', req_ip = None, remoteAddress = None,
         user_agent = Some ''Mozilla/5.0''\<rparr>) = 4
   \<and> rateCount (guard \<lparr>reply = FetchRejects, lookupTime = 12001, now = 12001\<rparr>
      [''1.2.3.4'' \<mapsto> \<lparr>isProxy = Some False, last_ms = 10000, count = 3\<rparr>]
      \<lparr>x_forwarded_for = Some ''1.2.3.4'', req_ip = None, remoteAddress = None,
         user_agent = Some ''Mozilla/5.0''\<rparr>) = 1"
proof -
  let ?c = "[''1.2.3.4'' \<mapsto> \<lparr>isProxy = Some False, last_ms = 10000, count = 3\<rparr>]"
  let ?r = "\<lparr>x_forwarded_for = Some ''1.2.3.4'', req_ip = None, remoteAddress = None,
         user_agent = Some ''Mozilla/5.0''\<rparr>"
  have d: "?c (detectClientIp ?r) = Some \<lparr>isProxy = Some False, last_ms = 10000, count = 3\<rparr>"
    by code_simp
  have p: "isProxy \<lparr>isProxy = Some False, last_ms = 10000, count = 3\<rparr> \<noteq> None"
    by simp
  from rate_window [where c = ?c and req = ?r
        and e = "\<lparr>reply = FetchRejects, lookupTime = 11999, now = 11999\<rparr>", OF d p]
    rate_window [where c = ?c and req = ?r
        and e = "\<lparr>reply = FetchRejects, lookupTime = 12001, now = 12001\<rparr>", OF d p]
  show ?thesis by simp
qed

text \<open>
  A gap of exactly 2000 ms: the count 3 becomes 1, not 4.
\<close>

theorem gap_of_2000_resets_counterexample:
  "rateCount (guard \<lparr>reply = FetchRejects, lookupTime = 12000, now = 12000\<rparr>
      [''1.2.3.4'' \<mapsto> \<lparr>isProxy = Some False, last_ms = 10000, count = 3\<rparr>]
      \<lparr>x_forwarded_for = Some ''1.2.3.4'', req_ip = None, remoteAddress = None,
         user_agent = Some ''Mozilla/5.0''\<rparr>) = 1
   \<and> rateCount (guard \<lparr>reply = FetchRejects, lookupTime = 12000, now = 12000\<rparr>
      [''1.2.3.4'' \<mapsto> \<lparr>isProxy = Some False, last_ms = 10000, count = 3\<rparr>]
      \<lparr>x_forwarded_for = Some ''1.2.3.4'', req_ip = None, remoteAddress = None,
         user_agent = Some ''Mozilla/5.0''\<rparr>) \<noteq> 3 + 1"
  by code_simp

lemma guard_seen:
  "seen (ipCache (guard e c req)) (detectClientIp req) (now e) (rateCount (guard e c req))"
proof -
  let ?ip = "detectClientIp req"
  have "?ip = [] \<or> isProxy (rateEntry (now e) (store (isProxyOrVPN e c ?ip)) ?ip) \<noteq> None"
  proof (cases "?ip = []")
    case True
    then show ?thesis by simp
  next
    case False
    from lookup_store_own [OF False, of e c] obtain y
      where "store (isProxyOrVPN e c ?ip) ?ip = Some y" and "isProxy y \<noteq> None" by blast
    then show ?thesis by (simp add: rateEntry_isProxy)
  qed
  then show ?thesis
    by (simp add: seen_def guard_cache_own guard_rateCount rateEntry_last)
qed

lemma seen_lookup_store: "seen c ip t n \<Longrightarrow> store (isProxyOrVPN e c ip) = c"
  by (auto simp: seen_def isProxyOrVPN_def split: option.splits)

lemma guard_next:
  assumes "seen c (detectClientIp req) t n" and "now e - t < 2000"
  shows "rateCount (guard e c req) = n + 1"
proof -
  from assms(1) have "store (isProxyOrVPN e c (detectClientIp req)) = c"
    by (rule seen_lookup_store)
  with assms show ?thesis
    by (auto simp: guard_rateCount rateEntry_def rateLimit_def seen_def split: option.splits)
qed

lemma guard_rate_flag:
  assumes "5 < rateCount (guard e c req)"
  shows "suspicious (guard e c req)
       \<and> (suspiciousReason (guard e c req) \<notin> {''bot'', ''vpn_proxy'', ''emulator''} \<longrightarrow>
            suspiciousReason (guard e c req) = ''rate_limit'')"
  using assms by (simp add: guard_def Let_def mark_def)

lemma run_oneByOne_Cons:
  "run (c, []) (oneByOne (x # xs)) =
     guard (fst x) c (snd x) # run (ipCache (guard (fst x) c (snd x)), []) (oneByOne xs)"
proof (cases "lookupStart c (detectClientIp (snd x))")
  case (Done b)
  then show ?thesis
    by (simp add: oneByOne_def step_Arrive_Done del: step.simps) simp
next
  case (Await cached)
  then show ?thesis
    by (simp add: oneByOne_def step_Arrive_Await step_Settle_first del: step.simps)
qed

lemma run_oneByOne_Nil: "run (c, []) (oneByOne []) = []"
  by (simp add: oneByOne_def)

lemma oneByOne_length: "length (run (c, []) (oneByOne xs)) = length xs"
proof (induction xs arbitrary: c)
  case Nil
  show ?case by (simp add: run_oneByOne_Nil)
next
  case (Cons x xs)
  then show ?case by (simp add: run_oneByOne_Cons)
qed

lemma oneByOne_nth:
  "i < length xs \<Longrightarrow>
     \<exists>c'. run (c, []) (oneByOne xs) ! i = guard (fst (xs ! i)) c' (snd (xs ! i))"
proof (induction xs arbitrary: c i)
  case Nil
  then show ?case by simp
next
  case (Cons x xs)
  show ?case
  proof (cases i)
    case 0
    then show ?thesis by (auto simp: run_oneByOne_Cons)
  next
    case (Suc j)
    with Cons.prems have "j < length xs" by simp
    from Cons.IH [OF this] Suc show ?thesis by (simp add: run_oneByOne_Cons)
  qed
qed

lemma oneByOne_counts:
  assumes "seen c ip t n"
    and "\<forall>x \<in> set xs. detectClientIp (snd x) = ip"
    and "xs \<noteq> [] \<longrightarrow> now (fst (xs ! 0)) - t < 2000"
    and "\<forall>i. Suc i < length xs \<longrightarrow> now (fst (xs ! Suc i)) - now (fst (xs ! i)) < 2000"
    and "i < length xs"
  shows "rateCount (run (c, []) (oneByOne xs) ! i) = n + i + 1"
  using assms
proof (induction xs arbitrary: c t n i)
  case Nil
  then show ?case by simp
next
  case (Cons x xs)
  let ?out = "guard (fst x) c (snd x)"
  from Cons.prems(2) have ip: "detectClientIp (snd x) = ip" by simp
  from Cons.prems(3) have gap: "now (fst x) - t < 2000" by simp
  from Cons.prems(1) ip gap have first: "rateCount ?out = n + 1"
    using guard_next [of c "snd x" t n "fst x"] by simp
  show ?case
  proof (cases i)
    case 0
    with first show ?thesis by (simp add: run_oneByOne_Cons)
  next
    case (Suc j)
    with Cons.prems(5) have j: "j < length xs" by simp
    have s: "seen (ipCache ?out) ip (now (fst x)) (n + 1)"
      using guard_seen [of "fst x" c "snd x"] ip first by simp
    have same: "\<forall>y \<in> set xs. detectClientIp (snd y) = ip"
      using Cons.prems(2) by simp
    have head: "xs \<noteq> [] \<longrightarrow> now (fst (xs ! 0)) - now (fst x) < 2000"
      using Cons.prems(4) by (cases xs) auto
    have rest: "\<forall>k. Suc k < length xs \<longrightarrow> now (fst (xs ! Suc k)) - now (fst (xs ! k)) < 2000"
    proof (intro allI impI)
      fix k assume "Suc k < length xs"
      then have "Suc (Suc k) < length (x # xs)" by simp
      with Cons.prems(4) have "now (fst ((x # xs) ! Suc (Suc k))) - now (fst ((x # xs) ! Suc k)) < 2000"
        by blast
      then show "now (fst (xs ! Suc k)) - now (fst (xs ! k)) < 2000" by simp
    qed
    from Cons.IH [OF s same head rest j]
    have "rateCount (run (ipCache ?out, []) (oneByOne xs) ! j) = n + 1 + j + 1" .
    with Suc show ?thesis by (simp add: run_oneByOne_Cons)
  qed
qed

lemma burst_counts:
  assumes same: "\<forall>x \<in> set xs. detectClientIp (snd x) = ip"
    and gaps: "\<forall>i. Suc i < length xs \<longrightarrow> now (fst (xs ! Suc i)) - now (fst (xs ! i)) < 2000"
    and i: "i < length xs"
  shows "rateCount (run (c, []) (oneByOne xs) ! i) = rateCount (run (c, []) (oneByOne xs) ! 0) + i
       \<and> 1 \<le> rateCount (run (c, []) (oneByOne xs) ! 0)"
proof (cases xs)
  case Nil
  with i show ?thesis by simp
next
  case (Cons x ys)
  let ?out = "guard (fst x) c (snd x)"
  have zero: "run (c, []) (oneByOne xs) ! 0 = ?out" using Cons by (simp add: run_oneByOne_Cons)
  have pos: "1 \<le> rateCount ?out" by (simp add: guard_rateCount rateEntry_count_pos)
  show ?thesis
  proof (cases i)
    case 0
    with zero pos show ?thesis by simp
  next
    case (Suc j)
    with i Cons have j: "j < length ys" by simp
    from same Cons have ip: "detectClientIp (snd x) = ip" by simp
    have s: "seen (ipCache ?out) ip (now (fst x)) (rateCount ?out)"
      using guard_seen [of "fst x" c "snd x"] ip by simp
    from same Cons have same': "\<forall>y \<in> set ys. detectClientIp (snd y) = ip" by simp
    have head: "ys \<noteq> [] \<longrightarrow> now (fst (ys ! 0)) - now (fst x) < 2000"
      using gaps Cons by (cases ys) auto
    have rest: "\<forall>k. Suc k < length ys \<longrightarrow> now (fst (ys ! Suc k)) - now (fst (ys ! k)) < 2000"
    proof (intro allI impI)
      fix k assume "Suc k < length ys"
      then have "Suc (Suc k) < length xs" using Cons by simp
      with gaps have "now (fst (xs ! Suc (Suc k))) - now (fst (xs ! Suc k)) < 2000" by blast
      then show "now (fst (ys ! Suc k)) - now (fst (ys ! k)) < 2000" using Cons by simp
    qed
    from oneByOne_counts [OF s same' head rest j]
    have "rateCount (run (ipCache ?out, []) (oneByOne ys) ! j) = rateCount ?out + j + 1" .
    with Suc Cons zero pos show ?thesis by (simp add: run_oneByOne_Cons)
  qed
qed

lemma guardAfter_plain:
  assumes "\<not> botCheck (toLowerCase (orEmpty (user_agent req)))"
    and "\<not> matchesStrong (toLowerCase (orEmpty (user_agent req)))"
    and "\<not> matchesWeakCombo (toLowerCase (orEmpty (user_agent req)))"
    and "\<not> answer lk"
  shows "suspicious (guardAfter e req lk) =
           (5 < count (rateEntry (now e) (store lk) (detectClientIp req)))"
    and "suspiciousReason (guardAfter e req lk) =
           (if 5 < count (rateEntry (now e) (store lk) (detectClientIp req)) then ''rate_limit'' else [])"
    and "rateCount (guardAfter e req lk) = count (rateEntry (now e) (store lk) (detectClientIp req))"
    and "ipCache (guardAfter e req lk) =
           (store lk)(detectClientIp req \<mapsto> rateEntry (now e) (store lk) (detectClientIp req))"
  using assms by (simp_all add: guardAfter_def Let_def mark_def)

lemma run_Arrive_Await:
  assumes "lookupStart c (detectClientIp req) = Await cached"
  shows "run (c, ps) (Arrive req e # evs) = run (c, ps @ [(req, cached)]) evs"
  using assms by simp

lemma run_Settle_first:
  "run (c, (req, cached) # ps) (Settle 0 e # evs) =
     guardAfter e req (lookupFinish e cached c (detectClientIp req))
     # run (ipCache (guardAfter e req (lookupFinish e cached c (detectClientIp req))), ps) evs"
  by (simp add: Let_def)

lemma settle_unseen_count:
  "rateCount (guardAfter e req (lookupFinish e None c (detectClientIp req))) = 1"
  by (simp add: guardAfter_def lookupFinish_def rateEntry_def rateLimit_def Let_def)

text \<open>
  C3 (as amended). Requests from one address, each run to its end before the next one
  arrives, from any cache and with no guard waiting at the start, each less than 2000 ms
  after the one before (the times are the clock reads of line 168). Then every request's
  count is strictly above the previous request's, and the sixth request has a count
  above 5 and is suspicious: its reason is \<open>rate_limit\<close> unless it is the reason of
  one of the three earlier checks.
\<close>

theorem burst_rate_limit:
  assumes same: "\<forall>x \<in> set xs. detectClientIp (snd x) = ip"
    and gaps: "\<forall>i. Suc i < length xs \<longrightarrow> now (fst (xs ! Suc i)) - now (fst (xs ! i)) < 2000"
  shows "(\<forall>i. Suc i < length xs \<longrightarrow>
            rateCount (run (c, []) (oneByOne xs) ! i) < rateCount (run (c, []) (oneByOne xs) ! Suc i))
       \<and> (6 \<le> length xs \<longrightarrow>
            5 < rateCount (run (c, []) (oneByOne xs) ! 5)
          \<and> suspicious (run (c, []) (oneByOne xs) ! 5)
          \<and> (suspiciousReason (run (c, []) (oneByOne xs) ! 5) \<notin> {''bot'', ''vpn_proxy'', ''emulator''} \<longrightarrow>
               suspiciousReason (run (c, []) (oneByOne xs) ! 5) = ''rate_limit''))"
proof (intro conjI allI impI)
  fix i assume "Suc i < length xs"
  then have "i < length xs" by simp
  from burst_counts [OF same gaps this, of c] burst_counts [OF same gaps \<open>Suc i < length xs\<close>, of c]
  show "rateCount (run (c, []) (oneByOne xs) ! i) < rateCount (run (c, []) (oneByOne xs) ! Suc i)"
    by simp
next
  assume len: "6 \<le> length xs"
  then have five: "5 < length xs" by simp
  from burst_counts [OF same gaps five, of c]
  show count: "5 < rateCount (run (c, []) (oneByOne xs) ! 5)" by simp
  from oneByOne_nth [OF five, of c] obtain c'
    where out: "run (c, []) (oneByOne xs) ! 5 = guard (fst (xs ! 5)) c' (snd (xs ! 5))" by blast
  from count out guard_rate_flag [of "fst (xs ! 5)" c' "snd (xs ! 5)"]
  show "suspicious (run (c, []) (oneByOne xs) ! 5)" by simp
  assume "suspiciousReason (run (c, []) (oneByOne xs) ! 5) \<notin> {''bot'', ''vpn_proxy'', ''emulator''}"
  with count out guard_rate_flag [of "fst (xs ! 5)" c' "snd (xs ! 5)"]
  show "suspiciousReason (run (c, []) (oneByOne xs) ! 5) = ''rate_limit''" by simp
qed

theorem burst_rate_limit_witness:
  "map (\<lambda>out. (rateCount out, suspiciousReason out))
     (run (Map.empty, []) (oneByOne (map (\<lambda>t. (\<lparr>reply = FetchRejects, lookupTime = t, now = t\<rparr>,
       \<lparr>x_forwarded_for = Some ''1.2.3.4'', req_ip = Some ''1.2.3.4'',
          remoteAddress = Some ''10.9.9.9'', user_agent = Some ''Mozilla''\<rparr>)) [1000, 1500, 2900, 4000, 5999, 7998])))
     = [(1, []), (2, []), (3, []), (4, []), (5, []), (6, ''rate_limit'')]
   \<and> 5 < rateCount (run (Map.empty, []) (oneByOne (map (\<lambda>t. (\<lparr>reply = FetchRejects, lookupTime = t, now = t\<rparr>,
       \<lparr>x_forwarded_for = Some ''1.2.3.4'', req_ip = Some ''1.2.3.4'',
          remoteAddress = Some ''10.9.9.9'', user_agent = Some ''Mozilla''\<rparr>)) [1000, 1500, 2900, 4000, 5999, 7998])) ! 5)"
proof -
  let ?r = "\<lparr>x_forwarded_for = Some ''1.2.3.4'', req_ip = Some ''1.2.3.4'',
          remoteAddress = Some ''10.9.9.9'', user_agent = Some ''Mozilla''\<rparr>"
  let ?xs = "map (\<lambda>t. (\<lparr>reply = FetchRejects, lookupTime = t, now = t\<rparr>, ?r))
       [1000, 1500, 2900, 4000, 5999, 7998]"
  have d: "detectClientIp ?r = ''1.2.3.4''" by code_simp
  then have same: "\<forall>x \<in> set ?xs. detectClientIp (snd x) = ''1.2.3.4''" by simp
  have gaps: "\<forall>i. Suc i < length ?xs \<longrightarrow> now (fst (?xs ! Suc i)) - now (fst (?xs ! i)) < 2000"
  proof (intro allI impI)
    fix i assume "Suc i < length ?xs"
    then have "i = 0 \<or> i = 1 \<or> i = 2 \<or> i = 3 \<or> i = 4" by auto
    then show "now (fst (?xs ! Suc i)) - now (fst (?xs ! i)) < 2000" by auto
  qed
  have nb: "\<not> botCheck (toLowerCase (orEmpty (user_agent ?r)))" by code_simp
  have ns: "\<not> matchesStrong (toLowerCase (orEmpty (user_agent ?r)))" by code_simp
  have nw: "\<not> matchesWeakCombo (toLowerCase (orEmpty (user_agent ?r)))" by code_simp
  note plain = guardAfter_plain [of ?r, OF nb ns nw]
  have ran: "map (\<lambda>out. (rateCount out, suspiciousReason out)) (run (Map.empty, []) (oneByOne ?xs))
      = [(1, []), (2, []), (3, []), (4, []), (5, []), (6, ''rate_limit'')]"
    by (simp add: run_oneByOne_Cons run_oneByOne_Nil guard_guardAfter isProxyOrVPN_def plain d
        rateEntry_def rateLimit_def)
  from burst_rate_limit [OF same gaps, of Map.empty]
  have "5 < rateCount (run (Map.empty, []) (oneByOne ?xs) ! 5)" by simp
  with ran show ?thesis by (simp only: simp_thms)
qed

text \<open>
  Without that order the counts need not grow. Six requests from an address not seen
  before, 100 ms apart, all arrive while the first lookup is still waiting for the
  service. Every lookup has read no entry, so every one writes the count 0 when it goes
  on, just before its guard counts: each of the six requests gets the count 1 and none
  is flagged (\<open>settle_unseen_count\<close>: so it is for any guard whose lookup read no
  entry).
\<close>

theorem overlapping_burst_counterexample:
  "trustProxy \<lparr>x_forwarded_for = Some ''1.2.3.4'', req_ip = Some ''1.2.3.4'',
          remoteAddress = Some ''10.9.9.9'', user_agent = Some ''Mozilla''\<rparr>
   \<and> map (\<lambda>out. (rateCount out, suspicious out))
     (run (Map.empty, [])
        (map (\<lambda>t. Arrive \<lparr>x_forwarded_for = Some ''1.2.3.4'', req_ip = Some ''1.2.3.4'',
          remoteAddress = Some ''10.9.9.9'', user_agent = Some ''Mozilla''\<rparr>
                          \<lparr>reply = FetchRejects, lookupTime = t, now = t\<rparr>)
           [1000, 1100, 1200, 1300, 1400, 1500]
         @ map (\<lambda>t. Settle 0 \<lparr>reply = FetchRejects, lookupTime = t, now = t\<rparr>)
           [1600, 1700, 1800, 1900, 2000, 2100]))
   = [(1, False), (1, False), (1, False), (1, False), (1, False), (1, False)]"
proof -
  let ?r = "\<lparr>x_forwarded_for = Some ''1.2.3.4'', req_ip = Some ''1.2.3.4'',
          remoteAddress = Some ''10.9.9.9'', user_agent = Some ''Mozilla''\<rparr>"
  have d: "detectClientIp ?r = ''1.2.3.4''" by code_simp
  have nb: "\<not> botCheck (toLowerCase (orEmpty (user_agent ?r)))" by code_simp
  have ns: "\<not> matchesStrong (toLowerCase (orEmpty (user_agent ?r)))" by code_simp
  have nw: "\<not> matchesWeakCombo (toLowerCase (orEmpty (user_agent ?r)))" by code_simp
  note plain = guardAfter_plain [of ?r, OF nb ns nw]
  have a: "lookupStart Map.empty (detectClientIp ?r) = Await None"
    by (simp add: d lookupStart_def)
  have tp: "trustProxy ?r" by code_simp
  have "map (\<lambda>out. (rateCount out, suspicious out))
     (run (Map.empty, [])
        (map (\<lambda>t. Arrive ?r \<lparr>reply = FetchRejects, lookupTime = t, now = t\<rparr>)
           [1000, 1100, 1200, 1300, 1400, 1500]
         @ map (\<lambda>t. Settle 0 \<lparr>reply = FetchRejects, lookupTime = t, now = t\<rparr>)
           [1600, 1700, 1800, 1900, 2000, 2100]))
   = [(1, False), (1, False), (1, False), (1, False), (1, False), (1, False)]"
    by (simp add: run_Arrive_Await [OF a] run_Settle_first plain d lookupFinish_def
        rateEntry_def rateLimit_def del: run.simps(2))
  with tp show ?thesis by (simp only: simp_thms)
qed

section \<open>Outbound user-agent: substitution\<close>

text \<open>
  C9. The user-agent sent upstream is the original one for a request that is not
  suspicious; the empty string for a suspicious request in mode \<open>empty\<close>; for a
  suspicious request in mode \<open>suffix\<close>, which is the mode when none is configured, the
  original with \<open>" bot"\<close> appended, or \<open>"bot"\<close> when the original is empty.
\<close>

theorem uaToSend_cases:
  "uaToSend False mode origUA = origUA
   \<and> uaToSend True ''empty'' origUA = []
   \<and> uaToSend True ''suffix'' origUA = (if origUA = [] then ''bot'' else origUA @ '' bot'')
   \<and> whiteUaMode None = ''suffix''"
proof -
  have "whiteUaMode None = ''suffix''"
    by (simp add: whiteUaMode_def truthy_def toLowerCase_def lowerChar_def)
  then show ?thesis by (simp add: uaToSend_def)
qed

theorem uaToSend_cases_witness:
  "uaToSend False ''suffix'' ''Mozilla/5.0'' = ''Mozilla/5.0''
   \<and> uaToSend True ''empty'' ''MyBot/1.0'' = []
   \<and> uaToSend True ''suffix'' ''MyBot/1.0'' = ''MyBot/1.0 bot''
   \<and> uaToSend True ''suffix'' [] = ''bot''"
  using uaToSend_cases [of "''suffix''" "''Mozilla/5.0''"] uaToSend_cases [of "''empty''" "''MyBot/1.0''"]
    uaToSend_cases [of "''suffix''" "[]"]
  by simp

section \<open>The image of the upstream page\<close>

lemma extractImage_no_img: "indexOf html ''<img'' 0 = - 1 \<Longrightarrow> extractImage origin html = []"
  by (simp add: extractImage_def)

lemma extractImage_no_src:
  "indexOf html ''src='' (indexOf html ''<img'' 0) = - 1 \<Longrightarrow> extractImage origin html = []"
  by (simp add: extractImage_def Let_def)

lemma respond_no_image:
  assumes "indexOf html ''<img'' 0 = - 1 \<or> indexOf html ''src='' (indexOf html ''<img'' 0) = - 1"
  shows "respond keitaro origin (Response keitaro (Some html)) = \<lparr>image_url = [], site_url = []\<rparr>"
  using assms by (auto simp: extractImage_no_img extractImage_no_src)

lemma startsWith_take: "startsWith p s \<Longrightarrow> length p \<le> length s \<and> take (length p) s = p"
  by (induction p s rule: startsWith.induct) auto

lemma scan_found:
  "scan p s k \<noteq> - 1 \<Longrightarrow>
     int k \<le> scan p s k \<and> nat (scan p s k) - k \<le> length s
   \<and> startsWith p (drop (nat (scan p s k) - k) s)"
proof (induction p s k rule: scan.induct)
  case (1 p k)
  then show ?case by (auto split: if_splits)
next
  case (2 p c cs k)
  show ?case
  proof (cases "startsWith p (c # cs)")
    case True
    then show ?thesis by simp
  next
    case False
    with "2.prems" have ne: "scan p cs (Suc k) \<noteq> - 1" by simp
    from "2.IH" [OF False ne] have ih: "int (Suc k) \<le> scan p cs (Suc k)"
      "nat (scan p cs (Suc k)) - Suc k \<le> length cs"
      "startsWith p (drop (nat (scan p cs (Suc k)) - Suc k) cs)" by simp_all
    from ih(1) have "nat (scan p cs (Suc k)) - k = Suc (nat (scan p cs (Suc k)) - Suc k)" by linarith
    with False ih show ?thesis by simp
  qed
qed

lemma indexOf_found:
  assumes "indexOf s p from \<noteq> - 1"
  shows "int (clampIndex s from) \<le> indexOf s p from
       \<and> nat (indexOf s p from) + length p \<le> length s
       \<and> take (length p) (drop (nat (indexOf s p from)) s) = p"
proof -
  let ?k = "clampIndex s from"
  let ?j = "scan p (drop ?k s) ?k"
  have j: "indexOf s p from = ?j" by (simp add: indexOf_def Let_def)
  have k: "?k \<le> length s" by (simp add: clampIndex_def)
  from assms j have ne: "?j \<noteq> - 1" by simp
  from scan_found [OF ne] have 1: "int ?k \<le> ?j" and 2: "nat ?j - ?k \<le> length (drop ?k s)"
    and 3: "startsWith p (drop (nat ?j - ?k) (drop ?k s))" by simp_all
  from 1 have e: "nat ?j - ?k + ?k = nat ?j" by linarith
  from 3 e have 4: "startsWith p (drop (nat ?j) s)" by simp
  from startsWith_take [OF 4] have 5: "length p \<le> length s - nat ?j"
    and 6: "take (length p) (drop (nat ?j) s) = p" by simp_all
  from 2 e k have 7: "nat ?j \<le> length s" by simp
  from 1 5 6 7 j show ?thesis by simp
qed

lemma trim_not_Nil:
  assumes "x \<in> set s" and "\<not> isSpace x"
  shows "trim s \<noteq> []"
proof -
  let ?d = "dropWhile isSpace s"
  from assms have ne: "?d \<noteq> []" by (auto simp: dropWhile_eq_Nil_conv)
  then have "\<not> isSpace (hd ?d)" by (simp add: hd_dropWhile)
  moreover from ne have "hd ?d \<in> set (rev ?d)" by simp
  ultimately have "dropWhile isSpace (rev ?d) \<noteq> []"
    by (auto simp: dropWhile_eq_Nil_conv)
  then show ?thesis by (simp add: trim_def)
qed

lemma found_first_char:
  assumes "take (length (ch # p)) (drop n s) = ch # p"
  shows "n < length s \<and> s ! n = ch"
proof -
  from assms have ne: "drop n s \<noteq> []" by auto
  then have n: "n < length s" by simp
  from ne obtain y ys where d: "drop n s = y # ys" by (cases "drop n s") auto
  with assms have "y = ch" by simp
  moreover from n d have "s ! n = y" by (metis hd_drop_conv_nth list.sel(1))
  ultimately show ?thesis using n by simp
qed

lemma unclosed_quote_never_empty:
  assumes img: "indexOf html ''<img'' 0 \<noteq> - 1"
    and src: "indexOf html ''src='' (indexOf html ''<img'' 0) \<noteq> - 1"
    and quote: "indexOf html (needle (charAt html (indexOf html ''src='' (indexOf html ''<img'' 0) + 4)))
                  (indexOf html ''src='' (indexOf html ''<img'' 0) + 5) = - 1"
  shows "extractImage origin html \<noteq> []"
proof -
  let ?i = "indexOf html ''<img'' 0"
  let ?j = "indexOf html ''src='' ?i"
  from indexOf_found [OF img] have i0: "int (clampIndex html 0) \<le> ?i"
    and i2: "take (length ''<img'') (drop (nat ?i) html) = ''<img''" by blast+
  from i0 have i0': "0 \<le> ?i" by linarith
  from found_first_char [OF i2] have i1: "nat ?i < length html" and i3: "html ! nat ?i = CHR ''<''"
    by blast+
  from i0' i1 have ci: "clampIndex html ?i = nat ?i" by (simp add: clampIndex_def)
  from indexOf_found [OF src] have "int (clampIndex html ?i) \<le> ?j"
    and j1: "nat ?j + length ''src='' \<le> length html" by blast+
  with ci i0' have j0: "?i \<le> ?j" by simp
  let ?m = "clampIndex html (?j + 5)"
  from j1 have j2: "nat ?j + 4 \<le> length html" by simp
  from i0' j0 j2 have m: "nat ?i < ?m" unfolding clampIndex_def by linarith
  have sub: "substring html (?j + 5) (- 1) = take ?m html"
    by (simp add: substring_def Let_def clampIndex_def)
  from m i1 i3 have "take ?m html ! nat ?i = CHR ''<''" "nat ?i < length (take ?m html)"
    by simp_all
  then have "CHR ''<'' \<in> set (take ?m html)" by (metis nth_mem)
  moreover have "\<not> isSpace CHR ''<''" by (simp add: isSpace_def spaceChars_def)
  ultimately have t: "trim (take ?m html) \<noteq> []" by (rule trim_not_Nil)
  from img src quote sub t show ?thesis
    by (simp add: extractImage_def Let_def split: option.splits)
qed

text \<open>
  The examples of the specification: a redirect, an image with a relative path, a page
  without an image.
\<close>

lemma respond_examples:
  "respond ''https://origin.example/go'' (Some ''https://origin.example'')
     (Response ''https://example.com/x'' None)
     = \<lparr>image_url = [], site_url = ''https://example.com/x''\<rparr>
   \<and> respond ''https://origin.example/go'' (Some ''https://origin.example'')
     (Response ''https://origin.example/go''
        (Some (''<img id='' @ [CHR 0x22] @ ''x'' @ [CHR 0x22] @ '' src='' @ [CHR 0x22]
               @ ''/img/pic.png'' @ [CHR 0x22] @ ''>'')))
     = \<lparr>image_url = ''https://origin.example/lander/skytalons/img/pic.png'', site_url = []\<rparr>
   \<and> respond ''https://origin.example/go'' (Some ''https://origin.example'')
     (Response ''https://origin.example/go'' (Some ''<p>no image</p>''))
     = \<lparr>image_url = [], site_url = []\<rparr>"
  by code_simp

text \<open>
  C8. A page without \<open><img\<close>, or without \<open>src=\<close> after it, gives the empty
  \<open>image_url\<close> (\<open>respond_no_image\<close>). A page whose \<open>src\<close> value has no closing
  quote does not: \<open>indexOf\<close> returns -1 for the closing quote, \<open>substring\<close> clamps
  it to 0 and swaps its arguments, and the text before the value becomes the image
  path, which is never empty (\<open>unclosed_quote_never_empty\<close>). Here the page is
  \<open><img src="abc\<close>, with the default upstream URL. The extraction is the same
  text in both source files.
\<close>

theorem unclosed_quote_builds_url:
  "indexOf (''<img src='' @ [CHR 0x22] @ ''abc'') [CHR 0x22] 10 = - 1
   \<and> respond ''https://origin.skytalonsacademy.lol/skytalonsplaying''
        (Some ''https://origin.skytalonsacademy.lol'')
        (Response ''https://origin.skytalonsacademy.lol/skytalonsplaying''
           (Some (''<img src='' @ [CHR 0x22] @ ''abc'')))
      = \<lparr>image_url = ''https://origin.skytalonsacademy.lol/lander/skytalons/<img src='' @ [CHR 0x22],
         site_url = []\<rparr>"
  by code_simp

end
